theory Spec2Isabelle
  imports Complex_Main "HOL-Library.Char_ord" "HOL-Library.List_Lexorder"
    "HOL-Library.Multiset"
begin

section \<open>Data model (ProcessProvider.tsx)\<close>

text \<open>
  The \<^verbatim>\<open>Process\<close> interface. A JavaScript \<^verbatim>\<open>number\<close> that the specification
  declares an integer (pid, threads, priority) is an \<open>int\<close>; the two usage figures
  are rationals, which every finite double is. Strings are byte strings: the model
  covers ASCII text, on which a UTF-16 code unit and a \<open>char\<close> coincide.
\<close>

record process =
  pid :: int
  name :: string
  status :: string
  cpuKb :: rat
  memoryKb :: rat
  user :: string
  startTime :: string
  threads :: int
  priority :: int

section \<open>String primitives of the language\<close>

text \<open>\<^verbatim>\<open>String.prototype.toLowerCase\<close>, on ASCII: the letters A to Z move to a to z.\<close>

definition toLowerCase_char :: "char \<Rightarrow> char" where
  "toLowerCase_char c =
     (if 65 \<le> (of_char c :: nat) \<and> (of_char c :: nat) \<le> 90
      then char_of ((of_char c :: nat) + 32) else c)"

definition toLowerCase :: "string \<Rightarrow> string" where
  "toLowerCase s = map toLowerCase_char s"

text \<open>\<^verbatim>\<open>String.prototype.startsWith\<close> and \<^verbatim>\<open>String.prototype.includes\<close>.\<close>

fun startsWith :: "string \<Rightarrow> string \<Rightarrow> bool" where
  "startsWith s [] = True"
| "startsWith [] (c # cs) = False"
| "startsWith (x # xs) (c # cs) = (x = c \<and> startsWith xs cs)"

fun str_includes :: "string \<Rightarrow> string \<Rightarrow> bool" where
  "str_includes [] t = (t = [])"
| "str_includes (x # xs) t = (startsWith (x # xs) t \<or> str_includes xs t)"

text \<open>\<^verbatim>\<open>Number.prototype.toString\<close> on an integer: decimal digits, a minus sign first
  when negative.\<close>

fun digits :: "nat \<Rightarrow> string" where
  "digits n = (if n < 10 then [''0123456789'' ! n]
               else digits (n div 10) @ [''0123456789'' ! (n mod 10)])"

declare digits.simps [simp del]

definition Number_toString :: "int \<Rightarrow> string" where
  "Number_toString i = (if i < 0 then CHR ''-'' # digits (nat (- i)) else digits (nat i))"

text \<open>The characters an integer's text is made of.\<close>

definition plain_char :: "char \<Rightarrow> bool" where
  "plain_char c = (c \<in> set ''0123456789-'')"

section \<open>The table view (ProcessTable)\<close>

subsection \<open>Search filter\<close>

text \<open>
  \<^verbatim>\<open>processes.filter(process =>
      process.name.toLowerCase().includes(searchTerm.toLowerCase()) ||
      process.pid.toString().includes(searchTerm) ||
      process.status.toLowerCase().includes(searchTerm.toLowerCase()) ||
      process.user.toLowerCase().includes(searchTerm.toLowerCase()))\<close>
  The pid test takes the search term as typed, not lowered.
\<close>

definition matchesSearch :: "string \<Rightarrow> process \<Rightarrow> bool" where
  "matchesSearch searchTerm p =
     (str_includes (toLowerCase (name p)) (toLowerCase searchTerm) \<or>
      str_includes (Number_toString (pid p)) searchTerm \<or>
      str_includes (toLowerCase (status p)) (toLowerCase searchTerm) \<or>
      str_includes (toLowerCase (user p)) (toLowerCase searchTerm))"

definition filteredProcesses :: "process list \<Rightarrow> string \<Rightarrow> process list" where
  "filteredProcesses processes searchTerm = filter (matchesSearch searchTerm) processes"

text \<open>
  The specification's wording, independent of the code: \<open>s\<close> contains \<open>t\<close> as a
  case-insensitive substring when some contiguous part of \<open>s\<close> equals \<open>t\<close> up to
  letter case; a record matches when its name, its pid in decimal, its status or its
  user does.
\<close>

definition contains_ci :: "string \<Rightarrow> string \<Rightarrow> bool" where
  "contains_ci s t = (\<exists>a u b. s = a @ u @ b \<and> toLowerCase u = toLowerCase t)"

definition matches_spec :: "string \<Rightarrow> process \<Rightarrow> bool" where
  "matches_spec t p =
     (contains_ci (name p) t \<or> contains_ci (Number_toString (pid p)) t \<or>
      contains_ci (status p) t \<or> contains_ci (user p) t)"

subsection \<open>Sorting\<close>

text \<open>
  \<^verbatim>\<open>keyof Process\<close> and the sort configuration held by \<^verbatim>\<open>useState\<close>; it starts as
  \<^verbatim>\<open>{ key: 'memoryKb', direction: 'descending' }\<close>.
\<close>

datatype sort_key =
  Key_pid | Key_name | Key_status | Key_cpuKb | Key_memoryKb | Key_user | Key_startTime
| Key_threads | Key_priority

datatype direction = ascending | descending

record sortConfig =
  key :: sort_key
  direction :: direction

definition initialSortConfig :: sortConfig where
  "initialSortConfig = \<lparr>key = Key_memoryKb, direction = descending\<rparr>"

text \<open>
  \<^verbatim>\<open>const handleSort = (key) => {
      let direction = 'ascending';
      if (sortConfig.key === key && sortConfig.direction === 'ascending') direction = 'descending';
      setSortConfig({ key, direction }); }\<close>
\<close>

definition handleSort :: "sortConfig \<Rightarrow> sort_key \<Rightarrow> sortConfig" where
  "handleSort cfg k =
     (let d = (if key cfg = k \<and> direction cfg = ascending then descending else ascending)
      in \<lparr>key = k, direction = d\<rparr>)"

text \<open>
  \<^verbatim>\<open>a[sortConfig.key] < b[sortConfig.key]\<close>: numbers compare as numbers, strings by
  code units, the shorter of two strings first when it is a prefix of the other.
\<close>

definition field_lt :: "sort_key \<Rightarrow> process \<Rightarrow> process \<Rightarrow> bool" where
  "field_lt k a b =
     (case k of
        Key_pid \<Rightarrow> pid a < pid b
      | Key_name \<Rightarrow> name a < name b
      | Key_status \<Rightarrow> status a < status b
      | Key_cpuKb \<Rightarrow> cpuKb a < cpuKb b
      | Key_memoryKb \<Rightarrow> memoryKb a < memoryKb b
      | Key_user \<Rightarrow> user a < user b
      | Key_startTime \<Rightarrow> startTime a < startTime b
      | Key_threads \<Rightarrow> threads a < threads b
      | Key_priority \<Rightarrow> priority a < priority b)"

text \<open>Two records hold the same value under a key.\<close>

definition same_field :: "sort_key \<Rightarrow> process \<Rightarrow> process \<Rightarrow> bool" where
  "same_field k a b =
     (case k of
        Key_pid \<Rightarrow> pid a = pid b
      | Key_name \<Rightarrow> name a = name b
      | Key_status \<Rightarrow> status a = status b
      | Key_cpuKb \<Rightarrow> cpuKb a = cpuKb b
      | Key_memoryKb \<Rightarrow> memoryKb a = memoryKb b
      | Key_user \<Rightarrow> user a = user b
      | Key_startTime \<Rightarrow> startTime a = startTime b
      | Key_threads \<Rightarrow> threads a = threads b
      | Key_priority \<Rightarrow> priority a = priority b)"

text \<open>
  The comparator handed to \<^verbatim>\<open>sort\<close>; \<^verbatim>\<open>a[k] > b[k]\<close> is \<^verbatim>\<open>b[k] < a[k]\<close>.
  \<^verbatim>\<open>if (a[k] < b[k]) return direction === 'ascending' ? -1 : 1;
  if (a[k] > b[k]) return direction === 'ascending' ? 1 : -1;
  return 0;\<close>
\<close>

definition compareFn :: "sortConfig \<Rightarrow> process \<Rightarrow> process \<Rightarrow> rat" where
  "compareFn cfg a b =
     (if field_lt (key cfg) a b then (if direction cfg = ascending then - 1 else 1)
      else if field_lt (key cfg) b a then (if direction cfg = ascending then 1 else - 1)
      else 0)"

text \<open>
  \<^verbatim>\<open>Array.prototype.sort(comparefn)\<close>. The language fixes the result for a consistent
  comparator: the elements in comparator order, elements that compare as equal in their
  input order (the sort is stable since ECMAScript 2019). The model is the insertion
  sort that computes it: an element goes in front of the first later element that it
  does not compare greater than.
\<close>

fun insert_cmp :: "('a \<Rightarrow> 'a \<Rightarrow> rat) \<Rightarrow> 'a \<Rightarrow> 'a list \<Rightarrow> 'a list" where
  "insert_cmp c x [] = [x]"
| "insert_cmp c x (y # ys) = (if c x y \<le> 0 then x # y # ys else y # insert_cmp c x ys)"

definition Array_sort :: "('a \<Rightarrow> 'a \<Rightarrow> rat) \<Rightarrow> 'a list \<Rightarrow> 'a list" where
  "Array_sort c xs = foldr (insert_cmp c) xs []"

text \<open>\<^verbatim>\<open>[...filteredProcesses].sort((a, b) => ...)\<close>: the copy is sorted, the input kept.\<close>

definition sortedProcesses :: "process list \<Rightarrow> sortConfig \<Rightarrow> process list" where
  "sortedProcesses filtered cfg = Array_sort (compareFn cfg) filtered"

text \<open>A list in ascending, or descending, order of a key.\<close>

definition ascending_by :: "sort_key \<Rightarrow> process list \<Rightarrow> bool" where
  "ascending_by k xs = sorted_wrt (\<lambda>a b. \<not> field_lt k b a) xs"

definition descending_by :: "sort_key \<Rightarrow> process list \<Rightarrow> bool" where
  "descending_by k xs = sorted_wrt (\<lambda>a b. \<not> field_lt k a b) xs"

subsection \<open>Pagination\<close>

definition itemsPerPage :: int where
  "itemsPerPage = 10"

text \<open>\<^verbatim>\<open>Math.ceil(sortedProcesses.length / itemsPerPage)\<close>\<close>

definition totalPages :: "process list \<Rightarrow> int" where
  "totalPages sortedList = \<lceil>(of_nat (length sortedList) :: rat) / of_int itemsPerPage\<rceil>"

text \<open>
  \<^verbatim>\<open>Array.prototype.slice(start, end)\<close> on integer arguments: a negative index counts
  from the end, both are clamped to the array, and an empty range gives the empty array.
\<close>

definition slice :: "'a list \<Rightarrow> int \<Rightarrow> int \<Rightarrow> 'a list" where
  "slice xs start endIdx =
     (let len = int (length xs);
          k = (if start < 0 then max (len + start) 0 else min start len);
          final = (if endIdx < 0 then max (len + endIdx) 0 else min endIdx len)
      in take (nat (final - k)) (drop (nat k) xs))"

text \<open>\<^verbatim>\<open>sortedProcesses.slice((currentPage - 1) * itemsPerPage, currentPage * itemsPerPage)\<close>\<close>

definition paginatedProcesses :: "process list \<Rightarrow> int \<Rightarrow> process list" where
  "paginatedProcesses sortedList currentPage =
     slice sortedList ((currentPage - 1) * itemsPerPage) (currentPage * itemsPerPage)"

text \<open>The updaters of the two arrows:
  \<^verbatim>\<open>setCurrentPage(p => Math.max(1, p - 1))\<close> and
  \<^verbatim>\<open>setCurrentPage(p => Math.min(totalPages, p + 1))\<close>.\<close>

definition previousPage :: "int \<Rightarrow> int" where
  "previousPage p = max 1 (p - 1)"

definition nextPage :: "int \<Rightarrow> int \<Rightarrow> int" where
  "nextPage nPages p = min nPages (p + 1)"

text \<open>
  The page links: \<^verbatim>\<open>Array.from({ length: Math.min(5, totalPages) }, (_, i) => ...)\<close>
  with
  \<^verbatim>\<open>if (totalPages <= 5) pageNum = i + 1;
  else if (currentPage <= 3) pageNum = i + 1;
  else if (currentPage >= totalPages - 2) pageNum = totalPages - 4 + i;
  else pageNum = currentPage - 2 + i;\<close>
\<close>

definition pageNum :: "int \<Rightarrow> int \<Rightarrow> int \<Rightarrow> int" where
  "pageNum nPages currentPage i =
     (if nPages \<le> 5 then i + 1
      else if currentPage \<le> 3 then i + 1
      else if currentPage \<ge> nPages - 2 then nPages - 4 + i
      else currentPage - 2 + i)"

definition pageWindow :: "int \<Rightarrow> int \<Rightarrow> int list" where
  "pageWindow nPages currentPage =
     map (\<lambda>i. pageNum nPages currentPage (int i)) [0 ..< nat (min 5 nPages)]"


subsection \<open>View state and events\<close>

text \<open>
  The three \<^verbatim>\<open>useState\<close> cells of the component. They start as the empty search
  term, the initial sort configuration and page 1.
\<close>

record view =
  searchTerm :: string
  sortConfig :: sortConfig
  currentPage :: int

definition initialView :: view where
  "initialView = \<lparr>searchTerm = [], sortConfig = initialSortConfig, currentPage = 1\<rparr>"

text \<open>What a render computes from the process list and the view state.\<close>

definition filtered_of :: "process list \<Rightarrow> view \<Rightarrow> process list" where
  "filtered_of processes v = filteredProcesses processes (searchTerm v)"

definition sorted_of :: "process list \<Rightarrow> view \<Rightarrow> process list" where
  "sorted_of processes v = sortedProcesses (filtered_of processes v) (sortConfig v)"

definition paginated_of :: "process list \<Rightarrow> view \<Rightarrow> process list" where
  "paginated_of processes v = paginatedProcesses (sorted_of processes v) (currentPage v)"

text \<open>\<^verbatim>\<open>{sortedProcesses.length > itemsPerPage && (<Pagination> ... )}\<close>\<close>

definition paginationShown :: "process list \<Rightarrow> view \<Rightarrow> bool" where
  "paginationShown processes v = (int (length (sorted_of processes v)) > itemsPerPage)"

text \<open>
  The table body:
  \<^verbatim>\<open>loading && !processes.length ? (skeleton rows)
  : paginatedProcesses.length > 0 ? (one row per process)
  : (searchTerm ? 'No matching processes found' : 'No processes found')\<close>
\<close>

datatype table_body = Skeleton | Rows "process list" | Message string

definition tableBody :: "bool \<Rightarrow> process list \<Rightarrow> view \<Rightarrow> table_body" where
  "tableBody loading processes v =
     (if loading \<and> length processes = 0 then Skeleton
      else if length (paginated_of processes v) > 0 then Rows (paginated_of processes v)
      else Message (if searchTerm v \<noteq> [] then ''No matching processes found''
                    else ''No processes found''))"

text \<open>
  The handlers. \<^verbatim>\<open>onChange={(e) => setSearchTerm(e.target.value)}\<close> writes the search
  term and nothing else.
\<close>

definition setSearchTerm :: "view \<Rightarrow> string \<Rightarrow> view" where
  "setSearchTerm v s = v\<lparr>searchTerm := s\<rparr>"

text \<open>
  The user's actions. An arrow or a page link can be clicked only while the pagination
  bar is rendered; the previous arrow is inert on page 1 and the next arrow on the last
  page (\<^verbatim>\<open>pointer-events-none\<close>); a page link is one of the \<open>min 5 totalPages\<close> links
  of the window. A click on a control that is not there is \<open>None\<close>.
\<close>

datatype event =
  TypeSearch string | ClickHeader sort_key | ClickPrevious | ClickNext | ClickPageLink nat

definition step :: "process list \<Rightarrow> view \<Rightarrow> event \<Rightarrow> view option" where
  "step processes v ev =
     (let nPages = totalPages (sorted_of processes v) in
      case ev of
        TypeSearch s \<Rightarrow> Some (setSearchTerm v s)
      | ClickHeader k \<Rightarrow> Some (v\<lparr>sortConfig := handleSort (sortConfig v) k\<rparr>)
      | ClickPrevious \<Rightarrow>
          (if paginationShown processes v \<and> currentPage v \<noteq> 1
           then Some (v\<lparr>currentPage := previousPage (currentPage v)\<rparr>) else None)
      | ClickNext \<Rightarrow>
          (if paginationShown processes v \<and> currentPage v \<noteq> nPages
           then Some (v\<lparr>currentPage := nextPage nPages (currentPage v)\<rparr>) else None)
      | ClickPageLink i \<Rightarrow>
          (if paginationShown processes v \<and> i < nat (min 5 nPages)
           then Some (v\<lparr>currentPage := pageNum nPages (currentPage v) (int i)\<rparr>) else None))"

fun run :: "process list \<Rightarrow> view \<Rightarrow> event list \<Rightarrow> view option" where
  "run processes v [] = Some v"
| "run processes v (ev # evs) =
     (case step processes v ev of None \<Rightarrow> None | Some v' \<Rightarrow> run processes v' evs)"

text \<open>The first page number of the window, read off the four branches of \<open>pageNum\<close>.\<close>

definition windowStart :: "int \<Rightarrow> int \<Rightarrow> int" where
  "windowStart nPages c =
     (if nPages \<le> 5 \<or> c \<le> 3 then 1 else if nPages - 2 \<le> c then nPages - 4 else c - 2)"

section \<open>More primitives of the language\<close>

text \<open>The line feed, \<^verbatim>\<open>"\n"\<close>.\<close>

definition newline :: char where
  "newline = CHR 0x0A"

text \<open>
  \<^verbatim>\<open>String.prototype.trim\<close>: white space goes from both ends. On ASCII the white space
  and line terminator characters are tab, line feed, vertical tab, form feed, carriage
  return and space.
\<close>

definition isWhiteSpace :: "char \<Rightarrow> bool" where
  "isWhiteSpace c = (let n = (of_char c :: nat) in n = 32 \<or> (9 \<le> n \<and> n \<le> 13))"

definition trim :: "string \<Rightarrow> string" where
  "trim s = rev (dropWhile isWhiteSpace (rev (dropWhile isWhiteSpace s)))"

text \<open>\<^verbatim>\<open>Array.prototype.join(separator)\<close> on an array of strings.\<close>

fun join :: "string \<Rightarrow> string list \<Rightarrow> string" where
  "join sep [] = []"
| "join sep [x] = x"
| "join sep (x # y # ys) = x @ sep @ join sep (y # ys)"

text \<open>
  The text of a number that need not be an integer, as a template literal and
  \<^verbatim>\<open>JSON.stringify\<close> print it: a minus sign when negative, the integer part, and when
  there is a fractional part a point and its digits. A usage figure is modelled by the
  decimal value its text denotes. The definition gives the text of the language for
  the figures called \<open>plainDecimal\<close> below: zero, or of magnitude from \<^verbatim>\<open>1e-6\<close> up to
  \<^verbatim>\<open>1e21\<close>, with at most 17 decimal places. Outside that range the language prints an
  exponent, which the definition does not; what is proved of number texts is proved for
  plain decimals.
\<close>

fun frac_digits :: "nat \<Rightarrow> rat \<Rightarrow> string" where
  "frac_digits 0 f = []"
| "frac_digits (Suc n) f =
     (if f = 0 then []
      else (let d = \<lfloor>f * 10\<rfloor> in (''0123456789'' ! nat d) # frac_digits n (f * 10 - of_int d)))"

definition Number_toString_frac :: "rat \<Rightarrow> string" where
  "Number_toString_frac x =
     (let a = \<bar>x\<bar>; w = \<lfloor>a\<rfloor>; f = a - of_int w
      in (if x < 0 then ''-'' else []) @ digits (nat w) @
         (if f = 0 then [] else ''.'' @ frac_digits 17 f))"

text \<open>\<^verbatim>\<open>String.prototype.split("\n")\<close>: the lines of a text.\<close>

fun splitLines :: "string \<Rightarrow> string list" where
  "splitLines [] = [[]]"
| "splitLines (c # cs) =
     (if c = newline then [] # splitLines cs
      else (case splitLines cs of [] \<Rightarrow> [[c]] | l # ls \<Rightarrow> (c # l) # ls))"

section \<open>Application state\<close>

text \<open>
  \<^verbatim>\<open>SystemResources\<close>, and the state the provider and the query box hold between
  events: the provider's five cells, the query box's three, and two logs of what has
  left the program: the toasts shown (all of them error toasts) and the prompts posted
  to the inference endpoint.
\<close>

record systemResources =
  totalCpuUsage :: rat
  totalMemoryUsage :: rat
  totalMemory :: rat
  diskUsage :: rat
  totalDisk :: rat
  networkUsage :: rat

record app =
  processes :: "process list"
  systemResources :: systemResources
  loading :: bool
  error :: "string option"
  chatHistory :: "string list"
  query :: string
  isLoading :: bool
  ollamaAvailable :: "bool option"
  toasts :: "string list"
  requests :: "string list"

section \<open>The query box (QueryInput.tsx)\<close>

text \<open>
  What the POST to \<^verbatim>\<open>/api/generate\<close> comes back with: a success status with a JSON
  body whose \<^verbatim>\<open>response\<close> field is a string or is absent, a success status with a
  body that is not JSON, another status with its body text, or no response at all.
\<close>

datatype ollama_reply =
  ReplyOk "string option" | ReplyNotJson | ReplyStatus nat string | ReplyNone

text \<open>\<^verbatim>\<open>prompt: context + "\n" + query\<close>\<close>

definition ollama_prompt :: "string \<Rightarrow> string \<Rightarrow> string" where
  "ollama_prompt q context = context @ [newline] @ q"

text \<open>
  The result of \<^verbatim>\<open>queryOllama\<close>: \<^verbatim>\<open>data.response || "No response from Ollama."\<close> on
  success, an exception otherwise (\<open>Inl\<close> with its message).
\<close>

definition queryOllama :: "ollama_reply \<Rightarrow> string + string" where
  "queryOllama reply =
     (case reply of
        ReplyOk (Some r) \<Rightarrow> Inr (if r \<noteq> [] then r else ''No response from Ollama.'')
      | ReplyOk None \<Rightarrow> Inr ''No response from Ollama.''
      | ReplyNotJson \<Rightarrow> Inl ''Unexpected token''
      | ReplyStatus code body \<Rightarrow>
          Inl (''Error '' @ Number_toString (int code) @ '': '' @ body)
      | ReplyNone \<Rightarrow> Inl ''Failed to fetch'')"

text \<open>
  \<^verbatim>\<open>"System processes: " + processes.map(proc =>
      `PID: ${proc.pid}, Name: ${proc.name}, Status: ${proc.status}, CPU KB: ${proc.cpuKb}, Memory KB: ${proc.memoryKb}`
    ).join(", ")\<close>
\<close>

definition contextEntry :: "process \<Rightarrow> string" where
  "contextEntry proc =
     ''PID: '' @ Number_toString (pid proc) @ '', Name: '' @ name proc @
     '', Status: '' @ status proc @ '', CPU KB: '' @ Number_toString_frac (cpuKb proc) @
     '', Memory KB: '' @ Number_toString_frac (memoryKb proc)"

definition buildContext :: "process list \<Rightarrow> string" where
  "buildContext ps = ''System processes: '' @ join '', '' (map contextEntry ps)"

text \<open>
  \<^verbatim>\<open>handleSubmit\<close>, run to its end with the reply the endpoint gives:
  \<^verbatim>\<open>if (!query.trim()) { toast.error('Please enter a query'); return; }
  setIsLoading(true);
  try { const context = ...; const response = await queryOllama(query, context);
        addToChatHistory(response); setQuery(''); }
  catch (error) { toast.error('Failed to get a response'); }
  finally { setIsLoading(false); }\<close>
  and \<^verbatim>\<open>addToChatHistory = (response) => setChatHistory(prev => [...prev, response])\<close>.
\<close>

definition addToChatHistory :: "app \<Rightarrow> string \<Rightarrow> app" where
  "addToChatHistory st response = st\<lparr>chatHistory := chatHistory st @ [response]\<rparr>"

definition handleSubmit :: "ollama_reply \<Rightarrow> app \<Rightarrow> app" where
  "handleSubmit reply st =
     (if trim (query st) = [] then st\<lparr>toasts := toasts st @ [''Please enter a query'']\<rparr>
      else
        (let st1 = st\<lparr>isLoading := True\<rparr>;
             context = buildContext (processes st1);
             st2 = st1\<lparr>requests := requests st1 @ [ollama_prompt (query st1) context]\<rparr>;
             st3 = (case queryOllama reply of
                      Inr response \<Rightarrow> (addToChatHistory st2 response)\<lparr>query := []\<rparr>
                    | Inl err \<Rightarrow> st2\<lparr>toasts := toasts st2 @ [''Failed to get a response'']\<rparr>)
         in st3\<lparr>isLoading := False\<rparr>))"

section \<open>The data source and the provider (ProcessProvider.tsx)\<close>

subsection \<open>Fallback data\<close>

text \<open>
  What a \<^verbatim>\<open>fetch\<close> of the backend ends in: a success status with the parsed JSON
  payload, another status, or an exception (the network is down, or the body does not
  parse).
\<close>

datatype 'a fetched = FetchedJson 'a | FetchedNotOk | FetchFailed

text \<open>
  \<^verbatim>\<open>parseFloat(x.toFixed(2))\<close>: the nearest multiple of a hundredth, the larger one of
  two equally near.
\<close>

definition toFixed2 :: "rat \<Rightarrow> rat" where
  "toFixed2 x = of_int \<lfloor>x * 100 + 1 / 2\<rfloor> / 100"

text \<open>
  \<^verbatim>\<open>arr[Math.floor(Math.random() * arr.length)]\<close>, for the value \<open>r\<close> that
  \<^verbatim>\<open>Math.random()\<close> returned; \<open>r\<close> lies in \<open>[0, 1)\<close>, so the index is within the array.
\<close>

definition pick :: "'a list \<Rightarrow> rat \<Rightarrow> 'a" where
  "pick arr r = arr ! nat \<lfloor>r * of_nat (length arr)\<rfloor>"

definition processNames :: "string list" where
  "processNames =
    [''chrome'', ''firefox'', ''safari'', ''edge'', ''brave'',
     ''node'', ''npm'', ''yarn'', ''python'', ''python3'', ''java'', ''javaw'', ''dotnet'',
     ''gcc'', ''clang'',
     ''vscode'', ''code'', ''idea'', ''eclipse'', ''atom'', ''sublime_text'', ''notepad++'',
     ''terminal'', ''cmd'', ''powershell'', ''bash'', ''zsh'', ''iTerm'', ''hyper'',
     ''spotify'', ''spotify.exe'', ''music'', ''itunes'', ''vlc'', ''mplayer'',
     ''slack'', ''discord'', ''teams'', ''zoom'', ''skype'', ''telegram'', ''signal'',
     ''explorer'', ''finder'', ''nautilus'', ''dolphin'',
     ''systemd'', ''launchd'', ''svchost'', ''services'', ''wininit'', ''lsass'', ''ntoskrnl'',
     ''docker'', ''containerd'', ''kubelet'', ''kube-proxy'',
     ''mysqld'', ''postgres'', ''mongod'', ''redis-server'', ''elasticsearch'',
     ''nginx'', ''apache2'', ''httpd'', ''iis'',
     ''photoshop'', ''illustrator'', ''gimp'', ''inkscape'', ''blender'',
     ''antivirus'', ''defender'', ''avast'', ''norton'', ''mcafee'',
     ''dropbox'', ''onedrive'', ''gdrive'',
     ''steam'', ''epic'', ''battle.net'', ''origin'']"

definition users :: "string list" where
  "users = [''system'', ''root'', ''admin'', ''user'', ''guest'', ''service'', ''daemon'',
            ''www-data'', ''nobody'']"

definition statuses :: "string list" where
  "statuses = [''running'', ''sleeping'', ''stopped'', ''zombie'', ''waiting'', ''locked'']"

definition priorities :: "int list" where
  "priorities = [0, 1, 2, 5, 10, 15, 20]"

text \<open>\<^verbatim>\<open>String.prototype.replace\<close> with a one-character pattern: the first occurrence.\<close>

fun replaceFirst :: "char \<Rightarrow> char \<Rightarrow> string \<Rightarrow> string" where
  "replaceFirst a b [] = []"
| "replaceFirst a b (c # cs) = (if c = a then b # cs else c # replaceFirst a b cs)"

text \<open>
  \<^verbatim>\<open>generateStartTime\<close>: \<open>now\<close> is the clock in milliseconds, \<open>r\<close> the random draw and
  \<open>toISOString\<close> the date formatting of the language, taken as given.
  \<^verbatim>\<open>const randomMinutes = Math.floor(Math.random() * (30 * 24 * 60 - 5) + 5);
  const date = new Date(now.getTime() - randomMinutes * 60000);
  return date.toISOString().replace('T', ' ').substring(0, 19);\<close>
\<close>

definition generateStartTime :: "int \<Rightarrow> (int \<Rightarrow> string) \<Rightarrow> rat \<Rightarrow> string" where
  "generateStartTime now toISOString r =
     (let randomMinutes = \<lfloor>r * (30 * 24 * 60 - 5) + 5\<rfloor>;
          date = now - randomMinutes * 60000
      in take 19 (replaceFirst (CHR ''T'') (CHR '' '') (toISOString date)))"

text \<open>
  Record \<open>i\<close> of \<^verbatim>\<open>Array.from({ length: 100 }, (_, i) => ...)\<close>. \<open>rnd\<close> is the sequence
  of values \<^verbatim>\<open>Math.random()\<close> returns; a record takes eight of them, in the order of
  the source: name, user, status, priority, cpu, memory, start time, threads.
\<close>

definition mockProcess :: "(nat \<Rightarrow> rat) \<Rightarrow> int \<Rightarrow> (int \<Rightarrow> string) \<Rightarrow> nat \<Rightarrow> process" where
  "mockProcess rnd now toISOString i =
     \<lparr>pid = 1000 + int i,
      name = pick processNames (rnd (8 * i)),
      status = pick statuses (rnd (8 * i + 2)),
      cpuKb = toFixed2 (rnd (8 * i + 4) * 100),
      memoryKb = toFixed2 (rnd (8 * i + 5) * 1000),
      user = pick users (rnd (8 * i + 1)),
      startTime = generateStartTime now toISOString (rnd (8 * i + 6)),
      threads = \<lfloor>rnd (8 * i + 7) * 20\<rfloor> + 1,
      priority = pick priorities (rnd (8 * i + 3))\<rparr>"

text \<open>\<^verbatim>\<open>Array.from({ length: 100 }, ...).sort((a, b) => b.memoryKb - a.memoryKb)\<close>\<close>

definition generateMockProcesses :: "(nat \<Rightarrow> rat) \<Rightarrow> int \<Rightarrow> (int \<Rightarrow> string) \<Rightarrow> process list" where
  "generateMockProcesses rnd now toISOString =
     Array_sort (\<lambda>a b. memoryKb b - memoryKb a)
       (map (mockProcess rnd now toISOString) [0 ..< 100])"

definition generateMockSystemResources :: "(nat \<Rightarrow> rat) \<Rightarrow> systemResources" where
  "generateMockSystemResources rnd =
     \<lparr>totalCpuUsage = toFixed2 (rnd 0 * 100),
      totalMemoryUsage = toFixed2 (rnd 1 * 16000),
      totalMemory = 32000,
      diskUsage = toFixed2 (rnd 2 * 500000),
      totalDisk = 1000000,
      networkUsage = toFixed2 (rnd 3 * 100)\<rparr>"

text \<open>
  \<^verbatim>\<open>fetchProcesses\<close> and \<^verbatim>\<open>fetchSystemResources\<close>: the payload on success, the fallback
  on another status and on an exception.
\<close>

definition fetchProcesses ::
  "process list fetched \<Rightarrow> (nat \<Rightarrow> rat) \<Rightarrow> int \<Rightarrow> (int \<Rightarrow> string) \<Rightarrow> process list" where
  "fetchProcesses response rnd now toISOString =
     (case response of
        FetchedJson payload \<Rightarrow> payload
      | FetchedNotOk \<Rightarrow> generateMockProcesses rnd now toISOString
      | FetchFailed \<Rightarrow> generateMockProcesses rnd now toISOString)"

definition fetchSystemResources ::
  "systemResources fetched \<Rightarrow> (nat \<Rightarrow> rat) \<Rightarrow> systemResources" where
  "fetchSystemResources response rnd =
     (case response of
        FetchedJson payload \<Rightarrow> payload
      | FetchedNotOk \<Rightarrow> generateMockSystemResources rnd
      | FetchFailed \<Rightarrow> generateMockSystemResources rnd)"
subsection \<open>Refresh\<close>











subsection \<open>Reading JSON text back\<close>





text \<open>
  The figures whose text \<open>Number_toString_frac\<close> gives as the language prints it: zero or
  of magnitude from \<^verbatim>\<open>1e-6\<close> up to \<^verbatim>\<open>1e21\<close> (outside, the language turns to exponent
  notation), with at most 17 decimal places. A record is printable when both of its
  usage figures are.
\<close>

definition exact17 :: "rat \<Rightarrow> bool" where
  "exact17 x = (of_int \<lfloor>x * 10 ^ 17\<rfloor> = x * 10 ^ 17)"

definition plainDecimal :: "rat \<Rightarrow> bool" where
  "plainDecimal x = (exact17 x \<and> (x = 0 \<or> 1 / 10 ^ 6 \<le> \<bar>x\<bar>) \<and> \<bar>x\<bar> < 10 ^ 21)"

definition printable :: "process \<Rightarrow> bool" where
  "printable p = (plainDecimal (cpuKb p) \<and> plainDecimal (memoryKb p))"

















section \<open>Sample records\<close>

text \<open>Two records with the same memory figure, used where a claim is run on an input.\<close>

definition proc_a :: process where
  "proc_a = \<lparr>pid = 1, name = ''node'', status = ''running'', cpuKb = 1, memoryKb = 7,
     user = ''root'', startTime = ''2025-01-01 00:00:00'', threads = 1, priority = 0\<rparr>"

definition proc_b :: process where
  "proc_b = \<lparr>pid = 2, name = ''bash'', status = ''sleeping'', cpuKb = 2, memoryKb = 7,
     user = ''root'', startTime = ''2025-01-02 00:00:00'', threads = 2, priority = 5\<rparr>"

text \<open>Eleven records, pids 1000 to 1010, as the fallback generator numbers them.\<close>

definition sample_process :: "nat \<Rightarrow> process" where
  "sample_process i = \<lparr>pid = 1000 + int i, name = ''chrome'', status = ''running'',
     cpuKb = 1, memoryKb = of_nat i, user = ''root'', startTime = ''2025-01-01 00:00:00'',
     threads = 1, priority = 0\<rparr>"

definition eleven_processes :: "process list" where
  "eleven_processes = map sample_process [0 ..< 11]"

text \<open>A state to run the claims on: the two sample records held, nothing else yet.\<close>

definition sample_app :: app where
  "sample_app = \<lparr>processes = [proc_a, proc_b],
     systemResources = \<lparr>totalCpuUsage = 0, totalMemoryUsage = 0, totalMemory = 32000,
       diskUsage = 0, totalDisk = 1000000, networkUsage = 0\<rparr>,
     loading = False, error = None, chatHistory = [], query = [], isLoading = False,
     ollamaAvailable = Some True, toasts = [], requests = []\<rparr>"


section \<open>Facts about the string primitives\<close>

lemma startsWith_iff: "startsWith s t \<longleftrightarrow> (\<exists>b. s = t @ b)"
  by (induction s t rule: startsWith.induct) auto

lemma str_includes_iff: "str_includes s t \<longleftrightarrow> (\<exists>a b. s = a @ t @ b)"
proof (induction s)
  case Nil
  then show ?case by auto
next
  case (Cons x xs)
  show ?case
  proof
    assume "str_includes (x # xs) t"
    then consider "startsWith (x # xs) t" | "str_includes xs t" by auto
    then show "\<exists>a b. x # xs = a @ t @ b"
    proof cases
      case 1
      then obtain b where "x # xs = t @ b" by (auto simp: startsWith_iff)
      then have "x # xs = [] @ t @ b" by simp
      then show ?thesis by blast
    next
      case 2
      then obtain a b where "xs = a @ t @ b" using Cons.IH by auto
      then have "x # xs = (x # a) @ t @ b" by simp
      then show ?thesis by blast
    qed
  next
    assume "\<exists>a b. x # xs = a @ t @ b"
    then obtain a b where ab: "x # xs = a @ t @ b" by blast
    show "str_includes (x # xs) t"
    proof (cases a)
      case Nil
      with ab have "startsWith (x # xs) t" by (auto simp: startsWith_iff)
      then show ?thesis by simp
    next
      case (Cons y a')
      with ab have "xs = a' @ t @ b" by simp
      then have "str_includes xs t" using Cons.IH by blast
      then show ?thesis by simp
    qed
  qed
qed

lemma str_includes_empty: "str_includes s []"
proof -
  have "s = [] @ [] @ s" by simp
  then show ?thesis unfolding str_includes_iff by blast
qed

lemma includes_lower_iff:
  "str_includes (toLowerCase s) (toLowerCase t) \<longleftrightarrow> contains_ci s t"
proof
  assume "str_includes (toLowerCase s) (toLowerCase t)"
  then obtain a b where "map toLowerCase_char s = a @ (map toLowerCase_char t @ b)"
    unfolding str_includes_iff toLowerCase_def by blast
  then obtain a' r where s: "s = a' @ r"
    and r: "map toLowerCase_char t @ b = map toLowerCase_char r"
    unfolding map_eq_append_conv by blast
  from r [symmetric] obtain u b' where "r = u @ b'"
    and "map toLowerCase_char t = map toLowerCase_char u"
    unfolding map_eq_append_conv by blast
  with s have "s = a' @ u @ b' \<and> toLowerCase u = toLowerCase t"
    by (simp add: toLowerCase_def)
  then show "contains_ci s t" unfolding contains_ci_def by blast
next
  assume "contains_ci s t"
  then obtain a u b where "s = a @ u @ b" and "toLowerCase u = toLowerCase t"
    unfolding contains_ci_def by blast
  then have "toLowerCase s = toLowerCase a @ toLowerCase t @ toLowerCase b"
    by (simp add: toLowerCase_def)
  then show "str_includes (toLowerCase s) (toLowerCase t)"
    unfolding str_includes_iff by blast
qed

lemma plain_char_code: "plain_char c \<Longrightarrow> (of_char c :: nat) < 65"
  by (auto simp: plain_char_def)

lemma toLowerCase_char_upper:
  assumes "65 \<le> (of_char x :: nat)" and "(of_char x :: nat) \<le> 90"
  shows "(of_char (toLowerCase_char x) :: nat) = of_char x + 32"
proof -
  have "(of_char x + 32) mod 256 = (of_char x + 32 :: nat)"
    using assms by (intro mod_less) linarith
  then show ?thesis using assms by (simp add: toLowerCase_char_def)
qed

lemma lower_plain_char:
  assumes "plain_char c" and "toLowerCase_char x = c"
  shows "x = c"
proof (cases "65 \<le> (of_char x :: nat) \<and> (of_char x :: nat) \<le> 90")
  case True
  then have "(of_char c :: nat) = of_char x + 32"
    using toLowerCase_char_upper [of x] assms(2) by simp
  with plain_char_code [OF assms(1)] True show ?thesis by linarith
next
  case False
  with assms(2) show ?thesis by (simp add: toLowerCase_char_def)
qed

lemma plain_char_lower: "plain_char c \<Longrightarrow> toLowerCase_char c = c"
  using plain_char_code [of c] by (simp add: toLowerCase_char_def)

lemma lower_eq_plain:
  "list_all plain_char u \<Longrightarrow> map toLowerCase_char u = map toLowerCase_char t \<Longrightarrow> u = t"
proof (induction u arbitrary: t)
  case Nil
  then show ?case by simp
next
  case (Cons c u)
  from Cons.prems(2) obtain x t' where t: "t = x # t'" by (cases t) simp_all
  from Cons.prems(1) have pc: "plain_char c" and pu: "list_all plain_char u" by simp_all
  from Cons.prems(2) t have hd: "toLowerCase_char x = toLowerCase_char c"
    and tl: "map toLowerCase_char u = map toLowerCase_char t'" by simp_all
  from hd have "toLowerCase_char x = c" using plain_char_lower [OF pc] by simp
  with pc have "x = c" by (rule lower_plain_char)
  moreover from pu tl have "u = t'" by (rule Cons.IH)
  ultimately show ?case using t by simp
qed

lemma digit_plain:
  assumes "n < 10"
  shows "plain_char (''0123456789'' ! n)"
proof -
  have "list_all plain_char ''0123456789''" by (simp add: plain_char_def)
  moreover have "n < length ''0123456789''" using assms by simp
  ultimately show ?thesis unfolding list_all_length by blast
qed

lemma digits_plain: "list_all plain_char (digits n)"
proof (induction n rule: digits.induct)
  case (1 n)
  show ?case
  proof (cases "n < 10")
    case True
    then show ?thesis by (subst digits.simps) (simp add: digit_plain)
  next
    case False
    then have "list_all plain_char (digits (n div 10))" using 1 by simp
    moreover have "plain_char (''0123456789'' ! (n mod 10))" by (rule digit_plain) simp
    ultimately show ?thesis using False by (subst digits.simps) simp
  qed
qed

lemma Number_toString_plain: "list_all plain_char (Number_toString i)"
  by (simp add: Number_toString_def digits_plain plain_char_def)

lemma includes_pid_iff:
  "str_includes (Number_toString i) t \<longleftrightarrow> contains_ci (Number_toString i) t"
proof
  assume "str_includes (Number_toString i) t"
  then obtain a b where "Number_toString i = a @ t @ b" by (auto simp: str_includes_iff)
  then show "contains_ci (Number_toString i) t" unfolding contains_ci_def by blast
next
  assume "contains_ci (Number_toString i) t"
  then obtain a u b where s: "Number_toString i = a @ u @ b"
    and eq: "map toLowerCase_char u = map toLowerCase_char t"
    unfolding contains_ci_def toLowerCase_def by blast
  have "list_all plain_char (a @ u @ b)" using Number_toString_plain [of i] s by simp
  then have "list_all plain_char u" by simp
  then have "u = t" using eq by (rule lower_eq_plain)
  with s show "str_includes (Number_toString i) t" unfolding str_includes_iff by blast
qed

lemma matchesSearch_spec: "matchesSearch t p \<longleftrightarrow> matches_spec t p"
  by (simp add: matchesSearch_def matches_spec_def includes_lower_iff includes_pid_iff)

section \<open>Facts about sorting\<close>

lemma field_lt_asym: "field_lt k a b \<Longrightarrow> \<not> field_lt k b a"
  by (cases k) (simp_all add: field_lt_def)

lemma field_lt_total_trans:
  "\<not> field_lt k b a \<Longrightarrow> \<not> field_lt k c b \<Longrightarrow> \<not> field_lt k c a"
  by (cases k) (simp_all add: field_lt_def not_less)

lemma same_field_not_lt: "same_field k a b \<Longrightarrow> \<not> field_lt k a b \<and> \<not> field_lt k b a"
  by (cases k) (simp_all add: field_lt_def same_field_def)

lemma not_lt_same_field: "\<not> field_lt k a b \<Longrightarrow> \<not> field_lt k b a \<Longrightarrow> same_field k a b"
  by (cases k) (simp_all add: field_lt_def same_field_def)

lemma same_field_trans_sym: "same_field k p a \<Longrightarrow> same_field k p b \<Longrightarrow> same_field k a b"
  by (cases k) (simp_all add: same_field_def)

lemma compareFn_asc: "direction cfg = ascending \<Longrightarrow> compareFn cfg a b \<le> 0 \<longleftrightarrow> \<not> field_lt (key cfg) b a"
  using field_lt_asym [of "key cfg" a b] by (simp add: compareFn_def)

lemma compareFn_desc: "direction cfg = descending \<Longrightarrow> compareFn cfg a b \<le> 0 \<longleftrightarrow> \<not> field_lt (key cfg) a b"
  using field_lt_asym [of "key cfg" a b] by (simp add: compareFn_def)

lemma set_insert_cmp: "set (insert_cmp c x ys) = insert x (set ys)"
  by (induction ys) auto

lemma sorted_insert_cmp:
  assumes total: "\<And>a b. R a b \<or> R b a"
    and trans: "\<And>a b d. R a b \<Longrightarrow> R b d \<Longrightarrow> R a d"
    and c: "\<And>a b. c a b \<le> 0 \<longleftrightarrow> R a b"
  shows "sorted_wrt R ys \<Longrightarrow> sorted_wrt R (insert_cmp c x ys)"
proof (induction ys)
  case Nil
  then show ?case by simp
next
  case (Cons y ys)
  show ?case
  proof (cases "c x y \<le> 0")
    case True
    then have "R x y" by (simp add: c)
    moreover have "\<forall>z\<in>set ys. R y z" using Cons.prems by simp
    ultimately have "\<forall>z\<in>set (y # ys). R x z" using trans by auto
    then show ?thesis using True Cons.prems by simp
  next
    case False
    then have "R y x" using total [of x y] by (simp add: c)
    then show ?thesis using False Cons by (auto simp: set_insert_cmp)
  qed
qed

lemma sorted_Array_sort:
  assumes total: "\<And>a b. R a b \<or> R b a"
    and trans: "\<And>a b d. R a b \<Longrightarrow> R b d \<Longrightarrow> R a d"
    and c: "\<And>a b. c a b \<le> 0 \<longleftrightarrow> R a b"
  shows "sorted_wrt R (Array_sort c xs)"
  unfolding Array_sort_def
  by (induction xs) (simp_all add: sorted_insert_cmp [OF total trans c])

lemma filter_insert_cmp:
  assumes ties: "\<And>a b. P a \<Longrightarrow> P b \<Longrightarrow> c a b \<le> 0"
  shows "filter P (insert_cmp c x ys) = filter P (x # ys)"
  by (induction ys) (auto simp: ties)

lemma filter_Array_sort:
  assumes ties: "\<And>a b. P a \<Longrightarrow> P b \<Longrightarrow> c a b \<le> 0"
  shows "filter P (Array_sort c xs) = filter P xs"
  unfolding Array_sort_def
  by (induction xs) (simp_all add: filter_insert_cmp [of P c, OF ties])

lemma mset_insert_cmp: "mset (insert_cmp c x ys) = add_mset x (mset ys)"
  by (induction ys) auto

lemma mset_Array_sort: "mset (Array_sort c xs) = mset xs"
  unfolding Array_sort_def by (induction xs) (simp_all add: mset_insert_cmp)

lemma sortedProcesses_ascending:
  assumes "direction cfg = ascending"
  shows "ascending_by (key cfg) (sortedProcesses fs cfg)"
  unfolding ascending_by_def sortedProcesses_def
proof (rule sorted_Array_sort)
  show "\<not> field_lt (key cfg) b a \<or> \<not> field_lt (key cfg) a b" for a b
    using field_lt_asym by blast
  show "\<not> field_lt (key cfg) b a \<Longrightarrow> \<not> field_lt (key cfg) d b \<Longrightarrow> \<not> field_lt (key cfg) d a" for a b d
    by (rule field_lt_total_trans)
  show "compareFn cfg a b \<le> 0 \<longleftrightarrow> \<not> field_lt (key cfg) b a" for a b
    using assms by (rule compareFn_asc)
qed

lemma sortedProcesses_descending:
  assumes "direction cfg = descending"
  shows "descending_by (key cfg) (sortedProcesses fs cfg)"
  unfolding descending_by_def sortedProcesses_def
proof (rule sorted_Array_sort)
  show "\<not> field_lt (key cfg) a b \<or> \<not> field_lt (key cfg) b a" for a b
    using field_lt_asym by blast
  show "\<not> field_lt (key cfg) a b \<Longrightarrow> \<not> field_lt (key cfg) b d \<Longrightarrow> \<not> field_lt (key cfg) a d" for a b d
    using field_lt_total_trans by blast
  show "compareFn cfg a b \<le> 0 \<longleftrightarrow> \<not> field_lt (key cfg) a b" for a b
    using assms by (rule compareFn_desc)
qed

lemma sortedProcesses_stable:
  "filter (same_field (key cfg) p) (sortedProcesses fs cfg) = filter (same_field (key cfg) p) fs"
  unfolding sortedProcesses_def
proof (rule filter_Array_sort)
  fix a b
  assume "same_field (key cfg) p a" and "same_field (key cfg) p b"
  then have "same_field (key cfg) a b" by (rule same_field_trans_sym)
  then have "\<not> field_lt (key cfg) a b \<and> \<not> field_lt (key cfg) b a" by (rule same_field_not_lt)
  then show "compareFn cfg a b \<le> 0" by (simp add: compareFn_def)
qed

lemma handleSort_first:
  "\<not> (key cfg = k \<and> direction cfg = ascending) \<Longrightarrow>
   handleSort cfg k = \<lparr>key = k, direction = ascending\<rparr>"
  by (auto simp: handleSort_def)

lemma handleSort_second:
  "handleSort \<lparr>key = k, direction = ascending\<rparr> k = \<lparr>key = k, direction = descending\<rparr>"
  by (simp add: handleSort_def)

section \<open>Facts about pagination\<close>

lemma ten_div_bounds:
  fixes n :: int
  shows "n \<le> 10 * ((n + 9) div 10)" and "10 * ((n + 9) div 10) < n + 10"
proof -
  have m: "10 * ((n + 9) div 10) + (n + 9) mod 10 = n + 9" by (rule mult_div_mod_eq)
  have r: "0 \<le> (n + 9) mod 10" "(n + 9) mod 10 < 10" by simp_all
  from m r show "n \<le> 10 * ((n + 9) div 10)" by linarith
  from m r show "10 * ((n + 9) div 10) < n + 10" by linarith
qed

lemma totalPages_div: "totalPages xs = (int (length xs) + 9) div 10"
proof -
  let ?L = "length xs"
  let ?z = "(int ?L + 9) div 10"
  have "\<lceil>(of_nat ?L :: rat) / 10\<rceil> = ?z"
  proof (rule ceiling_unique)
    have "of_int (10 * ?z) < (of_int (int ?L + 10) :: rat)"
      using ten_div_bounds(2) [of "int ?L"] by (simp only: of_int_less_iff)
    then show "(of_int ?z :: rat) - 1 < of_nat ?L / 10" by simp
    have "(of_int (int ?L) :: rat) \<le> of_int (10 * ?z)"
      using ten_div_bounds(1) [of "int ?L"] by (simp only: of_int_le_iff)
    then show "(of_nat ?L :: rat) / 10 \<le> of_int ?z" by simp
  qed
  then show ?thesis by (simp add: totalPages_def itemsPerPage_def)
qed

lemma slice_nonneg:
  assumes "0 \<le> a" and "a \<le> b"
  shows "slice xs a b = take (nat b - nat a) (drop (nat a) xs)"
proof -
  let ?len = "int (length xs)"
  have eq: "slice xs a b = take (nat (min b ?len - min a ?len)) (drop (nat (min a ?len)) xs)"
    using assms by (simp add: slice_def Let_def)
  consider "b \<le> ?len" | "a \<le> ?len" "?len < b" | "?len < a" by linarith
  then show ?thesis
  proof cases
    case 1
    then have "min b ?len = b" and "min a ?len = a" using assms by simp_all
    moreover have "nat (b - a) = nat b - nat a" using assms by linarith
    ultimately show ?thesis using eq by simp
  next
    case 2
    then have m: "min b ?len = ?len" "min a ?len = a" by simp_all
    have "length (drop (nat a) xs) \<le> nat (?len - a)" by simp
    then have 1: "take (nat (?len - a)) (drop (nat a) xs) = drop (nat a) xs" by (rule take_all)
    have "length (drop (nat a) xs) \<le> nat b - nat a" using 2 assms by simp
    then have 2: "take (nat b - nat a) (drop (nat a) xs) = drop (nat a) xs" by (rule take_all)
    show ?thesis using eq m 1 2 by simp
  next
    case 3
    then have "min a ?len = ?len" and "length xs \<le> nat a" by simp_all
    then show ?thesis using eq by simp
  qed
qed

lemma paginated_take_drop:
  assumes "1 \<le> p"
  shows "paginatedProcesses xs p = take 10 (drop (10 * nat (p - 1)) xs)"
proof -
  have "paginatedProcesses xs p = take (nat (p * 10) - nat ((p - 1) * 10)) (drop (nat ((p - 1) * 10)) xs)"
    unfolding paginatedProcesses_def itemsPerPage_def using assms by (intro slice_nonneg) simp_all
  moreover have a: "nat ((p - 1) * 10) = 10 * nat (p - 1)"
  proof -
    have "(p - 1) * 10 = int (10 * nat (p - 1))" using assms by simp
    then show ?thesis by (simp only: nat_int)
  qed
  moreover have "nat (p * 10) - nat ((p - 1) * 10) = 10"
  proof -
    have "p * 10 = int (10 * nat (p - 1) + 10)" using assms by simp
    then have "nat (p * 10) = 10 * nat (p - 1) + 10" by (simp only: nat_int)
    then show ?thesis using a by simp
  qed
  ultimately show ?thesis by simp
qed

lemma last_page_arith:
  assumes "0 < (L::nat)"
  shows "nat ((int L + 9) div 10 - 1) = (L - 1) div 10"
    and "min (L - 10 * ((L - 1) div 10)) 10 = (if L mod 10 = 0 then 10 else L mod 10)"
proof -
  define q where "q = (L - 1) div 10"
  define r where "r = (L - 1) mod 10"
  have r: "r < 10" by (simp add: r_def)
  have "10 * q + r = L - 1" unfolding q_def r_def by (rule mult_div_mod_eq)
  then have L: "L = 10 * q + r + 1" using assms by simp
  have "int L + 9 = (int q + 1) * 10 + int r" by (simp add: L)
  then have "(int L + 9) div 10 = int q + 1" using r by simp
  then show "nat ((int L + 9) div 10 - 1) = (L - 1) div 10" by (simp add: q_def)
  have m: "L mod 10 = (r + 1) mod 10" by (simp add: L)
  have "L - 10 * q = r + 1" by (simp add: L)
  moreover have "(if (r + 1) mod 10 = 0 then 10 else (r + 1) mod 10) = r + 1"
  proof (cases "r = 9")
    case True
    then show ?thesis by simp
  next
    case False
    then have "r + 1 < 10" using r by simp
    then show ?thesis by simp
  qed
  ultimately show "min (L - 10 * ((L - 1) div 10)) 10 = (if L mod 10 = 0 then 10 else L mod 10)"
    using r unfolding m q_def [symmetric] by simp
qed

lemma last_page_length:
  assumes "0 < length xs"
  shows "length (paginatedProcesses xs (totalPages xs)) =
           (if length xs mod 10 = 0 then 10 else length xs mod 10)"
proof -
  let ?L = "length xs"
  let ?T = "totalPages xs"
  have T: "?T = (int ?L + 9) div 10" by (rule totalPages_div)
  have n: "nat (?T - 1) = (?L - 1) div 10" unfolding T using assms by (rule last_page_arith(1))
  have "int ?L \<le> 10 * ?T" unfolding T by (rule ten_div_bounds(1))
  then have T1: "1 \<le> ?T" using assms by linarith
  have "length (paginatedProcesses xs ?T) = min (?L - 10 * ((?L - 1) div 10)) 10"
    by (simp add: paginated_take_drop [OF T1] n)
  also have "\<dots> = (if ?L mod 10 = 0 then 10 else ?L mod 10)"
    using assms by (rule last_page_arith(2))
  finally show ?thesis .
qed

lemma full_page_length:
  assumes "1 \<le> p" and "p < totalPages xs"
  shows "length (paginatedProcesses xs p) = 10"
proof -
  let ?L = "length xs"
  let ?z = "(int ?L + 9) div 10"
  have "p + 1 \<le> ?z" using assms(2) by (simp add: totalPages_div)
  with ten_div_bounds(2) [of "int ?L"] have "10 * p \<le> int ?L" by linarith
  then have "10 * nat (p - 1) + 10 \<le> ?L" using assms(1) by linarith
  then show ?thesis by (simp add: paginated_take_drop [OF assms(1)])
qed

lemma page_moves:
  "1 \<le> previousPage p \<and> nextPage t p \<le> t \<and>
   (1 \<le> p \<and> p \<le> t \<longrightarrow> previousPage p \<le> t \<and> 1 \<le> nextPage t p)"
  by (simp add: previousPage_def nextPage_def)

lemma pageWindow_start:
  "pageWindow t c = map (\<lambda>i. windowStart t c + int i) [0 ..< nat (min 5 t)]"
  by (simp add: pageWindow_def pageNum_def windowStart_def add.commute)

lemma upt_5: "[0 ..< 5] = [0, 1, 2, 3, 4 :: nat]"
  by code_simp

lemma pageWindow_five:
  assumes "5 < t"
  shows "pageWindow t c =
    [windowStart t c, windowStart t c + 1, windowStart t c + 2, windowStart t c + 3,
     windowStart t c + 4]"
proof -
  have "nat (min 5 t) = 5" using assms by simp
  then show ?thesis by (simp add: pageWindow_start upt_5)
qed

lemma pageWindow_small:
  assumes "t \<le> 5"
  shows "pageWindow t c = map (\<lambda>i. 1 + int i) [0 ..< nat t]"
  using assms by (simp add: pageWindow_start windowStart_def min_def)

lemma pageWindow_in_range:
  assumes "1 \<le> c" and "c \<le> t"
  shows "list_all (\<lambda>n. 1 \<le> n \<and> n \<le> t) (pageWindow t c)"
proof (cases "t \<le> 5")
  case True
  then show ?thesis by (auto simp: pageWindow_small list_all_iff)
next
  case False
  then have "5 < t" by simp
  then show ?thesis using assms by (simp add: pageWindow_five windowStart_def)
qed

lemma pageWindow_has_current:
  assumes "1 \<le> c" and "c \<le> t"
  shows "c \<in> set (pageWindow t c)"
proof (cases "t \<le> 5")
  case True
  have "nat (c - 1) < nat t" using assms by linarith
  then have "nat (c - 1) \<in> {0 ..< nat t}" by simp
  then have "(\<lambda>i. 1 + int i) (nat (c - 1)) \<in> (\<lambda>i. 1 + int i) ` {0 ..< nat t}"
    by (rule imageI)
  moreover have "1 + int (nat (c - 1)) = c" using assms by simp
  ultimately have "c \<in> (\<lambda>i. 1 + int i) ` {0 ..< nat t}" by simp
  then show ?thesis using True by (simp add: pageWindow_small)
next
  case False
  then have 5: "5 < t" by simp
  consider "c \<le> 3" | "3 < c" "t - 2 \<le> c" | "3 < c" "c < t - 2" by linarith
  then show ?thesis
  proof cases
    case 1
    then have "c = 1 \<or> c = 2 \<or> c = 3" using assms by linarith
    then show ?thesis using 1 5 by (auto simp: pageWindow_five windowStart_def)
  next
    case 2
    then have "c = t - 2 \<or> c = t - 1 \<or> c = t" using assms by linarith
    then show ?thesis using 2 5 by (auto simp: pageWindow_five windowStart_def)
  next
    case 3
    then show ?thesis using 5 by (simp add: pageWindow_five windowStart_def)
  qed
qed

section \<open>A run of the view on eleven records\<close>

text \<open>From the initial view: the next arrow, then the search term 1005.\<close>

lemma stale_run:
  "run eleven_processes initialView [ClickNext, TypeSearch ''1005''] =
     Some \<lparr>searchTerm = ''1005'', sortConfig = initialSortConfig, currentPage = 2\<rparr>"
  by code_simp

lemma stale_filtered:
  "filtered_of eleven_processes
     \<lparr>searchTerm = ''1005'', sortConfig = initialSortConfig, currentPage = 2\<rparr> =
   [sample_process 5]"
  by code_simp

lemma stale_sorted:
  "sorted_of eleven_processes
     \<lparr>searchTerm = ''1005'', sortConfig = initialSortConfig, currentPage = 2\<rparr> =
   [sample_process 5]"
  by (simp add: sorted_of_def stale_filtered sortedProcesses_def Array_sort_def)

lemma stale_paginated:
  "paginated_of eleven_processes
     \<lparr>searchTerm = ''1005'', sortConfig = initialSortConfig, currentPage = 2\<rparr> = []"
  by (simp add: paginated_of_def stale_sorted paginatedProcesses_def slice_def itemsPerPage_def)

lemma stale_page_one:
  "paginatedProcesses (sorted_of eleven_processes
     \<lparr>searchTerm = ''1005'', sortConfig = initialSortConfig, currentPage = 2\<rparr>) 1 =
   [sample_process 5]"
  by (simp add: stale_sorted paginatedProcesses_def slice_def itemsPerPage_def)

section \<open>Facts about the query box\<close>

lemma dropWhile_all: "dropWhile P xs = [] \<longleftrightarrow> list_all P xs"
  by (induction xs) auto

lemma trim_empty_iff: "trim s = [] \<longleftrightarrow> list_all isWhiteSpace s"
proof
  assume "trim s = []"
  then have "dropWhile isWhiteSpace (rev (dropWhile isWhiteSpace s)) = []"
    by (simp add: trim_def)
  then have "list_all isWhiteSpace (rev (dropWhile isWhiteSpace s))"
    by (simp only: dropWhile_all)
  then have a: "list_all isWhiteSpace (dropWhile isWhiteSpace s)" by (simp add: list_all_iff)
  have b: "list_all isWhiteSpace (takeWhile isWhiteSpace s)"
    by (auto simp: list_all_iff dest: set_takeWhileD)
  have "list_all isWhiteSpace (takeWhile isWhiteSpace s @ dropWhile isWhiteSpace s)"
    unfolding list_all_append using a b by (rule conjI [rotated])
  then show "list_all isWhiteSpace s" by (simp only: takeWhile_dropWhile_id)
next
  assume "list_all isWhiteSpace s"
  then have "dropWhile isWhiteSpace s = []" by (simp only: dropWhile_all)
  then show "trim s = []" by (simp only: trim_def rev.simps dropWhile.simps)
qed

lemma join_snoc:
  "join sep (xs @ [x]) = (if xs = [] then x else join sep xs @ sep @ x)"
  by (induction sep xs rule: join.induct) auto

lemma buildContext_snoc:
  "buildContext (ps @ [p]) = buildContext ps @ (if ps = [] then [] else '', '') @ contextEntry p"
  by (simp add: buildContext_def join_snoc)

lemma plain_not_newline: "plain_char c \<Longrightarrow> c \<noteq> newline"
  by (auto simp: plain_char_def newline_def)

lemma plain_list_no_newline: "list_all plain_char s \<Longrightarrow> newline \<notin> set s"
  using plain_not_newline by (auto simp: list_all_iff)

lemma frac_digits_plain:
  "0 \<le> f \<Longrightarrow> f < 1 \<Longrightarrow> list_all plain_char (frac_digits n f)"
proof (induction n arbitrary: f)
  case 0
  then show ?case by simp
next
  case (Suc n)
  let ?d = "\<lfloor>f * 10\<rfloor>"
  have d0: "0 \<le> ?d" using Suc.prems by simp
  have "f * 10 < of_int 10" using Suc.prems by simp
  then have d9: "?d < 10" by (simp only: floor_less_iff)
  have "nat ?d < 10" using d0 d9 by linarith
  then have p: "plain_char (''0123456789'' ! nat ?d)" by (rule digit_plain)
  have f0: "0 \<le> f * 10 - of_int ?d" by simp
  have f1: "f * 10 - of_int ?d < 1" by linarith
  have "list_all plain_char (frac_digits n (f * 10 - of_int ?d))"
    using f0 f1 by (rule Suc.IH)
  with p show ?case by (simp add: Let_def)
qed

lemma Number_toString_frac_no_newline: "newline \<notin> set (Number_toString_frac x)"
proof -
  let ?a = "\<bar>x\<bar>"
  let ?f = "?a - of_int \<lfloor>?a\<rfloor>"
  have "0 \<le> ?f" and "?f < 1" by linarith+
  then have "list_all plain_char (frac_digits 17 ?f)" by (rule frac_digits_plain)
  then have 1: "newline \<notin> set (frac_digits 17 ?f)" by (rule plain_list_no_newline)
  have 2: "newline \<notin> set (digits (nat \<lfloor>?a\<rfloor>))"
    using digits_plain by (rule plain_list_no_newline)
  from 1 2 show ?thesis by (simp add: Number_toString_frac_def Let_def newline_def)
qed

lemma contextEntry_no_newline:
  assumes "newline \<notin> set (name p)" and "newline \<notin> set (status p)"
  shows "newline \<notin> set (contextEntry p)"
proof -
  have "newline \<notin> set (Number_toString (pid p))"
    using Number_toString_plain by (rule plain_list_no_newline)
  moreover have "newline \<notin> set ''PID: ''" "newline \<notin> set '', Name: ''"
    "newline \<notin> set '', Status: ''" "newline \<notin> set '', CPU KB: ''"
    "newline \<notin> set '', Memory KB: ''"
    by (simp_all add: newline_def)
  ultimately show ?thesis
    using assms Number_toString_frac_no_newline [of "cpuKb p"]
      Number_toString_frac_no_newline [of "memoryKb p"]
    unfolding contextEntry_def set_append by blast
qed

lemma join_no_newline:
  assumes "newline \<notin> set sep"
  shows "list_all (\<lambda>x. newline \<notin> set x) xs \<Longrightarrow> newline \<notin> set (join sep xs)"
  using assms by (induction sep xs rule: join.induct) auto

lemma buildContext_single_line:
  assumes "list_all (\<lambda>p. newline \<notin> set (name p) \<and> newline \<notin> set (status p)) ps"
  shows "newline \<notin> set (buildContext ps)"
proof -
  have "list_all (\<lambda>x. newline \<notin> set x) (map contextEntry ps)"
    using assms contextEntry_no_newline by (auto simp: list_all_iff)
  moreover have "newline \<notin> set '', ''" by (simp add: newline_def)
  ultimately have "newline \<notin> set (join '', '' (map contextEntry ps))"
    by (rule join_no_newline [rotated])
  moreover have "newline \<notin> set ''System processes: ''" by (simp add: newline_def)
  ultimately show ?thesis unfolding buildContext_def set_append by blast
qed

section \<open>Facts about the provider\<close>

lemma generateMockProcesses_length: "length (generateMockProcesses rnd now fmt) = 100"
proof -
  have "mset (generateMockProcesses rnd now fmt) = mset (map (mockProcess rnd now fmt) [0 ..< 100])"
    by (simp only: generateMockProcesses_def mset_Array_sort)
  then have "size (mset (generateMockProcesses rnd now fmt)) =
      size (mset (map (mockProcess rnd now fmt) [0 ..< 100]))" by simp
  then show ?thesis by (simp only: size_mset length_map length_upt)
qed

lemma generateMockProcesses_descending:
  "descending_by Key_memoryKb (generateMockProcesses rnd now fmt)"
  unfolding descending_by_def generateMockProcesses_def
proof (rule sorted_Array_sort)
  show "\<not> field_lt Key_memoryKb a b \<or> \<not> field_lt Key_memoryKb b a" for a b
    using field_lt_asym by blast
  show "\<not> field_lt Key_memoryKb a b \<Longrightarrow> \<not> field_lt Key_memoryKb b d \<Longrightarrow>
        \<not> field_lt Key_memoryKb a d" for a b d
    using field_lt_total_trans by blast
  show "memoryKb b - memoryKb a \<le> 0 \<longleftrightarrow> \<not> field_lt Key_memoryKb a b" for a b :: process
    by (auto simp: field_lt_def)
qed


lemma pick_in_range:
  assumes "0 \<le> r" and "r < 1" and "arr \<noteq> []"
  shows "pick arr r \<in> set arr"
proof -
  let ?n = "length arr"
  have "r * of_nat ?n < of_nat ?n" using assms by simp
  then have "\<lfloor>r * of_nat ?n\<rfloor> < int ?n" by (simp add: floor_less_iff)
  moreover have "0 \<le> \<lfloor>r * of_nat ?n\<rfloor>" using assms by simp
  ultimately have "nat \<lfloor>r * of_nat ?n\<rfloor> < ?n" by linarith
  then show ?thesis unfolding pick_def by (rule nth_mem)
qed

section \<open>JSON text determines the records\<close>























































lemma toFixed2_plainDecimal:
  assumes "0 \<le> x" and "x \<le> 1000"
  shows "plainDecimal (toFixed2 x)"
proof -
  define k where "k = \<lfloor>x * 100 + 1 / 2\<rfloor>"
  have v: "toFixed2 x = of_int k / 100" by (simp add: toFixed2_def k_def)
  have k0: "0 \<le> k" using assms(1) by (simp add: k_def)
  have "x * 100 + 1 / 2 < of_int 100001" using assms(2) by simp
  then have k1: "k < 100001" unfolding k_def by (simp only: floor_less_iff)
  have "(of_int k / 100 :: rat) * 10 ^ 17 = of_int k * (10 ^ 17 / 100)" by simp
  also have "(10 ^ 17 / 100 :: rat) = of_int (10 ^ 15)" by simp
  also have "of_int k * (of_int (10 ^ 15) :: rat) = of_int (k * 10 ^ 15)"
    by (simp only: of_int_mult)
  finally have "(of_int k / 100 :: rat) * 10 ^ 17 = of_int (k * 10 ^ 15)" .
  then have e: "exact17 (of_int k / 100)" unfolding exact17_def by (simp only: floor_of_int)
  have a: "\<bar>of_int k / 100 :: rat\<bar> = of_int k / 100" using k0 by simp
  have lo: "(of_int k / 100 :: rat) = 0 \<or> 1 / 10 ^ 6 \<le> (of_int k / 100 :: rat)"
  proof (cases "k = 0")
    case True
    then show ?thesis by simp
  next
    case False
    then have "1 \<le> k" using k0 by simp
    then have "(1 :: rat) \<le> of_int k" by simp
    then have "(1 / 100 :: rat) \<le> of_int k / 100" by simp
    moreover have "(1 / 10 ^ 6 :: rat) \<le> 1 / 100" by simp
    ultimately show ?thesis by linarith
  qed
  have "(of_int k :: rat) < 100001" using k1 by simp
  then have "(of_int k / 100 :: rat) < 100001 / 100" by simp
  moreover have "(100001 / 100 :: rat) < 10 ^ 21" by simp
  ultimately have hi: "(of_int k / 100 :: rat) < 10 ^ 21" by linarith
  from e lo hi show ?thesis unfolding v plainDecimal_def a by blast
qed

lemma mockProcess_printable:
  assumes "\<And>j. 0 \<le> rnd j \<and> rnd j < 1"
  shows "printable (mockProcess rnd now fmt i)"
proof -
  have c: "0 \<le> rnd (8 * i + 4) * 100" "rnd (8 * i + 4) * 100 \<le> 1000"
    using assms [of "8 * i + 4"] by simp_all
  have m: "0 \<le> rnd (8 * i + 5) * 1000" "rnd (8 * i + 5) * 1000 \<le> 1000"
    using assms [of "8 * i + 5"] by simp_all
  from toFixed2_plainDecimal [OF c] toFixed2_plainDecimal [OF m]
  show ?thesis by (simp add: printable_def mockProcess_def)
qed

lemma generateMockProcesses_printable:
  assumes "\<And>j. 0 \<le> rnd j \<and> rnd j < 1"
  shows "list_all printable (generateMockProcesses rnd now fmt)"
proof -
  have "mset (generateMockProcesses rnd now fmt) = mset (map (mockProcess rnd now fmt) [0 ..< 100])"
    by (simp only: generateMockProcesses_def mset_Array_sort)
  then have "set (generateMockProcesses rnd now fmt) = set (map (mockProcess rnd now fmt) [0 ..< 100])"
    by (rule mset_eq_setD)
  then show ?thesis using mockProcess_printable [OF assms] by (auto simp: list_all_iff)
qed


section \<open>Claims\<close>

text \<open>
  C1. For every process list and every search term, the filtered sequence holds
  exactly the records whose name, pid in decimal, status or user contains the term as
  a case-insensitive substring, in their original order; for the empty term it is the
  whole list.
\<close>

theorem C1_filter_exact:
  "filteredProcesses ps q = filter (matches_spec q) ps \<and>
   filteredProcesses ps [] = ps"
proof -
  have "filteredProcesses ps q = filter (matches_spec q) ps"
    by (simp add: filteredProcesses_def matchesSearch_spec cong: filter_cong)
  moreover have "filteredProcesses ps [] = ps"
    by (simp add: filteredProcesses_def matchesSearch_def toLowerCase_def str_includes_empty)
  ultimately show ?thesis by simp
qed

text \<open>
  C2, as the code has it. Sorting is stable: the records that share a value of the sort
  key with any given record stand in the sorted list in the order they had in the
  filtered list, and the sorted list is a rearrangement of the filtered one. Invoking
  the sort toggle on a key twice in a row gives first the ascending, then the
  descending order of that key, provided the table is not already sorted ascending by
  that key when the first toggle happens.
\<close>

theorem C2_sort_stable_toggle:
  assumes "\<not> (key cfg = k \<and> direction cfg = ascending)"
  shows "filter (same_field (key cfg') p) (sortedProcesses fs cfg') =
           filter (same_field (key cfg') p) fs \<and>
         mset (sortedProcesses fs cfg') = mset fs \<and>
         handleSort cfg k = \<lparr>key = k, direction = ascending\<rparr> \<and>
         ascending_by k (sortedProcesses fs (handleSort cfg k)) \<and>
         handleSort (handleSort cfg k) k = \<lparr>key = k, direction = descending\<rparr> \<and>
         descending_by k (sortedProcesses fs (handleSort (handleSort cfg k) k))"
proof -
  have first: "handleSort cfg k = \<lparr>key = k, direction = ascending\<rparr>"
    using assms by (rule handleSort_first)
  have second: "handleSort (handleSort cfg k) k = \<lparr>key = k, direction = descending\<rparr>"
    by (simp add: first handleSort_second)
  have asc: "ascending_by k (sortedProcesses fs (handleSort cfg k))"
    using sortedProcesses_ascending [of "\<lparr>key = k, direction = ascending\<rparr>" fs]
    by (simp add: first)
  have desc: "descending_by k (sortedProcesses fs (handleSort (handleSort cfg k) k))"
    using sortedProcesses_descending [of "\<lparr>key = k, direction = descending\<rparr>" fs]
    by (simp add: second)
  have perm: "mset (sortedProcesses fs cfg') = mset fs"
    by (simp add: sortedProcesses_def mset_Array_sort)
  from sortedProcesses_stable first asc second desc perm show ?thesis by simp
qed

text \<open>
  The toggle run from the initial view on the memory column; both sample records hold
  the same memory figure.
\<close>

theorem C2_sort_stable_toggle_witness:
  "\<not> (key initialSortConfig = Key_memoryKb \<and> direction initialSortConfig = ascending) \<and>
   (filter (same_field (key initialSortConfig) proc_a)
      (sortedProcesses [proc_a, proc_b] initialSortConfig) =
      filter (same_field (key initialSortConfig) proc_a) [proc_a, proc_b] \<and>
    mset (sortedProcesses [proc_a, proc_b] initialSortConfig) = mset [proc_a, proc_b] \<and>
    handleSort initialSortConfig Key_memoryKb = \<lparr>key = Key_memoryKb, direction = ascending\<rparr> \<and>
    ascending_by Key_memoryKb
      (sortedProcesses [proc_a, proc_b] (handleSort initialSortConfig Key_memoryKb)) \<and>
    handleSort (handleSort initialSortConfig Key_memoryKb) Key_memoryKb =
      \<lparr>key = Key_memoryKb, direction = descending\<rparr> \<and>
    descending_by Key_memoryKb
      (sortedProcesses [proc_a, proc_b]
        (handleSort (handleSort initialSortConfig Key_memoryKb) Key_memoryKb)))"
proof -
  have h: "\<not> (key initialSortConfig = Key_memoryKb \<and> direction initialSortConfig = ascending)"
    by (simp add: initialSortConfig_def)
  from h C2_sort_stable_toggle [OF h, of initialSortConfig proc_a "[proc_a, proc_b]"]
  show ?thesis by (rule conjI)
qed


text \<open>
  C2 as stated fails once the table is sorted ascending by the key, the state after one
  click on the pid column from the initial view: the first of the next two toggles
  gives the descending order, not the ascending one.
\<close>

theorem C2_toggle_counterexample:
  "handleSort initialSortConfig Key_pid = \<lparr>key = Key_pid, direction = ascending\<rparr> \<and>
   handleSort \<lparr>key = Key_pid, direction = ascending\<rparr> Key_pid =
     \<lparr>key = Key_pid, direction = descending\<rparr> \<and>
   sortedProcesses [proc_a, proc_b] (handleSort \<lparr>key = Key_pid, direction = ascending\<rparr> Key_pid) =
     [proc_b, proc_a] \<and>
   \<not> ascending_by Key_pid
       (sortedProcesses [proc_a, proc_b] (handleSort \<lparr>key = Key_pid, direction = ascending\<rparr> Key_pid))"
  by (simp add: handleSort_def initialSortConfig_def sortedProcesses_def Array_sort_def
      compareFn_def field_lt_def ascending_by_def proc_a_def proc_b_def)

text \<open>
  C3. For a filtered and sorted list of length L and page size 10: the page count is
  \<open>ceil (L / 10)\<close>, that is \<open>(L + 9) div 10\<close>; page \<open>p\<close>, counted from 1, shows the
  elements from index \<open>10 * (p - 1)\<close> up to \<open>10 * p\<close> exclusive; every page before the
  last holds 10 items and the last page holds \<open>L mod 10\<close> items, or 10 when L is a
  positive multiple of 10; the previous arrow never yields a page below 1, the next
  arrow never a page above the page count, and from a page within \<open>1 .. page count\<close>
  both stay within it.
\<close>

theorem C3_pagination:
  "totalPages xs = (int (length xs) + 9) div 10 \<and>
   (1 \<le> p \<longrightarrow> paginatedProcesses xs p = take 10 (drop (10 * nat (p - 1)) xs)) \<and>
   (1 \<le> p \<and> p < totalPages xs \<longrightarrow> length (paginatedProcesses xs p) = 10) \<and>
   (0 < length xs \<longrightarrow>
      length (paginatedProcesses xs (totalPages xs)) =
        (if length xs mod 10 = 0 then 10 else length xs mod 10)) \<and>
   1 \<le> previousPage p \<and>
   nextPage (totalPages xs) p \<le> totalPages xs \<and>
   (1 \<le> p \<and> p \<le> totalPages xs \<longrightarrow>
      previousPage p \<le> totalPages xs \<and> 1 \<le> nextPage (totalPages xs) p)"
  using totalPages_div [of xs] paginated_take_drop [of p xs] last_page_length [of xs]
    full_page_length [of p xs] page_moves [of p "totalPages xs"]
  by blast


text \<open>C3 run on 25 records: three pages, the second full, the third of five.\<close>

theorem C3_pagination_witness:
  "(1::int) \<le> 2 \<and> 0 < length (replicate 25 proc_a) \<and>
   totalPages (replicate 25 proc_a) = 3 \<and>
   paginatedProcesses (replicate 25 proc_a) 2 = replicate 10 proc_a \<and>
   length (paginatedProcesses (replicate 25 proc_a) (totalPages (replicate 25 proc_a))) = 5 \<and>
   1 \<le> previousPage 2 \<and>
   nextPage (totalPages (replicate 25 proc_a)) 2 \<le> totalPages (replicate 25 proc_a)"
proof -
  note c3 = C3_pagination [of "replicate 25 proc_a" 2]
  have T: "totalPages (replicate 25 proc_a) = 3" using c3 by simp
  have pg: "paginatedProcesses (replicate 25 proc_a) 2 = replicate 10 proc_a"
    using c3 by simp
  have b: "0 < length (replicate 25 proc_a)" by simp
  with c3 have "length (paginatedProcesses (replicate 25 proc_a) (totalPages (replicate 25 proc_a))) =
      (if length (replicate 25 proc_a) mod 10 = 0 then 10 else length (replicate 25 proc_a) mod 10)"
    by blast
  also have "\<dots> = 5" by simp
  finally have lp:
    "length (paginatedProcesses (replicate 25 proc_a) (totalPages (replicate 25 proc_a))) = 5" .
  have pv: "1 \<le> previousPage 2" using c3 by blast
  have nx: "nextPage (totalPages (replicate 25 proc_a)) 2 \<le> totalPages (replicate 25 proc_a)"
    using c3 by blast
  have a: "(1::int) \<le> 2" by simp
  show ?thesis by (intro conjI a b T pg lp pv nx)
qed


text \<open>
  C9. For a page count \<open>t\<close> and a current page \<open>c\<close> with \<open>1 \<le> c \<le> t\<close>, the window of
  page links lists \<open>min 5 t\<close> consecutive page numbers, all within \<open>1 .. t\<close>, the current
  page among them; it is \<open>c - 2 .. c + 2\<close> when \<open>3 < c < t - 2\<close> and \<open>t > 5\<close>, and is
  clamped to \<open>1 .. 5\<close> or to \<open>t - 4 .. t\<close> at the two ends.
\<close>

theorem C9_page_window:
  assumes "1 \<le> c" and "c \<le> t"
  shows "length (pageWindow t c) = nat (min 5 t) \<and>
         (\<exists>s. pageWindow t c = map (\<lambda>i. s + int i) [0 ..< nat (min 5 t)]) \<and>
         list_all (\<lambda>n. 1 \<le> n \<and> n \<le> t) (pageWindow t c) \<and>
         c \<in> set (pageWindow t c) \<and>
         (5 < t \<and> 3 < c \<and> c < t - 2 \<longrightarrow> pageWindow t c = [c - 2, c - 1, c, c + 1, c + 2]) \<and>
         (5 < t \<and> c \<le> 3 \<longrightarrow> pageWindow t c = [1, 2, 3, 4, 5]) \<and>
         (5 < t \<and> 3 < c \<and> t - 2 \<le> c \<longrightarrow> pageWindow t c = [t - 4, t - 3, t - 2, t - 1, t]) \<and>
         (t \<le> 5 \<longrightarrow> pageWindow t c = map (\<lambda>i. 1 + int i) [0 ..< nat t])"
proof -
  have len: "length (pageWindow t c) = nat (min 5 t)" by (simp add: pageWindow_def)
  have consec: "\<exists>s. pageWindow t c = map (\<lambda>i. s + int i) [0 ..< nat (min 5 t)]"
    using pageWindow_start by blast
  have mid: "5 < t \<and> 3 < c \<and> c < t - 2 \<longrightarrow> pageWindow t c = [c - 2, c - 1, c, c + 1, c + 2]"
    by (simp add: pageWindow_five windowStart_def)
  have low: "5 < t \<and> c \<le> 3 \<longrightarrow> pageWindow t c = [1, 2, 3, 4, 5]"
    by (simp add: pageWindow_five windowStart_def)
  have high: "5 < t \<and> 3 < c \<and> t - 2 \<le> c \<longrightarrow> pageWindow t c = [t - 4, t - 3, t - 2, t - 1, t]"
    by (simp add: pageWindow_five windowStart_def)
  have small: "t \<le> 5 \<longrightarrow> pageWindow t c = map (\<lambda>i. 1 + int i) [0 ..< nat t]"
    by (simp add: pageWindow_small)
  from len consec pageWindow_in_range [OF assms] pageWindow_has_current [OF assms]
    mid low high small
  show ?thesis by blast
qed

text \<open>C9 run on ten pages with the fifth current.\<close>

theorem C9_page_window_witness:
  "(1::int) \<le> 5 \<and> (5::int) \<le> 10 \<and> length (pageWindow 10 5) = 5 \<and>
   pageWindow 10 5 = [3, 4, 5, 6, 7] \<and> 5 \<in> set (pageWindow 10 5) \<and>
   list_all (\<lambda>n. 1 \<le> n \<and> n \<le> 10) (pageWindow 10 5)"
  using C9_page_window [of 5 10] by simp

text \<open>
  C10. Typing a search term leaves the current page as it is. So there is a reachable
  view state, page 2 with a search term that leaves at most 10 records, in which the
  slice of the current page is empty although the filtered list is not: the message
  for no matching processes shows while the matches stand on page 1.
\<close>

theorem C10_stale_page:
  "step ps0 v (TypeSearch s) = Some (setSearchTerm v s) \<and>
   currentPage (setSearchTerm v s) = currentPage v \<and>
   (\<exists>ps evs w.
      run ps initialView evs = Some w \<and> currentPage w = 2 \<and> searchTerm w \<noteq> [] \<and>
      filtered_of ps w \<noteq> [] \<and> length (filtered_of ps w) \<le> 10 \<and>
      paginated_of ps w = [] \<and>
      paginatedProcesses (sorted_of ps w) 1 = filtered_of ps w \<and>
      tableBody False ps w = Message ''No matching processes found'')"
proof -
  let ?w = "\<lparr>searchTerm = ''1005'', sortConfig = initialSortConfig, currentPage = 2\<rparr>"
  have "run eleven_processes initialView [ClickNext, TypeSearch ''1005''] = Some ?w \<and>
      currentPage ?w = 2 \<and> searchTerm ?w \<noteq> [] \<and>
      filtered_of eleven_processes ?w \<noteq> [] \<and> length (filtered_of eleven_processes ?w) \<le> 10 \<and>
      paginated_of eleven_processes ?w = [] \<and>
      paginatedProcesses (sorted_of eleven_processes ?w) 1 = filtered_of eleven_processes ?w \<and>
      tableBody False eleven_processes ?w = Message ''No matching processes found''"
  proof (intro conjI)
    show "run eleven_processes initialView [ClickNext, TypeSearch ''1005''] = Some ?w"
      by (rule stale_run)
    show "filtered_of eleven_processes ?w \<noteq> []" by (simp add: stale_filtered)
    show "length (filtered_of eleven_processes ?w) \<le> 10" by (simp add: stale_filtered)
    show "paginated_of eleven_processes ?w = []" by (rule stale_paginated)
    show "paginatedProcesses (sorted_of eleven_processes ?w) 1 = filtered_of eleven_processes ?w"
      by (simp only: stale_page_one stale_filtered)
    show "tableBody False eleven_processes ?w = Message ''No matching processes found''"
      by (simp add: tableBody_def stale_paginated)
  qed simp_all
  then have "\<exists>ps evs w.
      run ps initialView evs = Some w \<and> currentPage w = 2 \<and> searchTerm w \<noteq> [] \<and>
      filtered_of ps w \<noteq> [] \<and> length (filtered_of ps w) \<le> 10 \<and>
      paginated_of ps w = [] \<and>
      paginatedProcesses (sorted_of ps w) 1 = filtered_of ps w \<and>
      tableBody False ps w = Message ''No matching processes found''"
    by blast
  moreover have "step ps0 v (TypeSearch s) = Some (setSearchTerm v s)"
    by (simp add: step_def)
  moreover have "currentPage (setSearchTerm v s) = currentPage v"
    by (simp add: setSearchTerm_def)
  ultimately show ?thesis by blast
qed

text \<open>
  C6, as the code has it. For a query that is not empty after trimming, one prompt is
  posted: the context, a line feed, the query text. The context is the heading
  \<open>System processes:\<close> followed by one entry per process (pid, name, status, cpu,
  memory), the entries separated by a comma and a space; it is a single line whenever
  no process name or status holds a line feed.
\<close>

theorem C6_prompt:
  assumes "trim (query st) \<noteq> []"
  shows "requests (handleSubmit reply st) =
           requests st @ [buildContext (processes st) @ [newline] @ query st] \<and>
         buildContext [] = ''System processes: '' \<and>
         buildContext (ps @ [p]) =
           buildContext ps @ (if ps = [] then [] else '', '') @ contextEntry p \<and>
         contextEntry p =
           ''PID: '' @ Number_toString (pid p) @ '', Name: '' @ name p @
           '', Status: '' @ status p @ '', CPU KB: '' @ Number_toString_frac (cpuKb p) @
           '', Memory KB: '' @ Number_toString_frac (memoryKb p) \<and>
         (list_all (\<lambda>p. newline \<notin> set (name p) \<and> newline \<notin> set (status p)) (processes st) \<longrightarrow>
            newline \<notin> set (buildContext (processes st)))"
proof -
  have "requests (handleSubmit reply st) =
      requests st @ [buildContext (processes st) @ [newline] @ query st]"
    using assms
    by (simp add: handleSubmit_def addToChatHistory_def ollama_prompt_def Let_def
        split: sum.splits)
  moreover have "buildContext [] = ''System processes: ''" by (simp add: buildContext_def)
  ultimately show ?thesis
    using buildContext_snoc [of ps p] buildContext_single_line [of "processes st"]
    by (simp add: contextEntry_def)
qed

text \<open>C6 run on the two sample records and the query \<open>which?\<close>.\<close>

theorem C6_prompt_witness:
  "trim (query (sample_app\<lparr>query := ''which?''\<rparr>)) \<noteq> [] \<and>
   requests (handleSubmit ReplyNone (sample_app\<lparr>query := ''which?''\<rparr>)) =
     [''System processes: PID: 1, Name: node, Status: running, CPU KB: 1, Memory KB: 7, PID: 2, Name: bash, Status: sleeping, CPU KB: 2, Memory KB: 7''
      @ [newline] @ ''which?''] \<and>
   newline \<notin> set (buildContext (processes (sample_app\<lparr>query := ''which?''\<rparr>)))"
proof -
  let ?st = "sample_app\<lparr>query := ''which?''\<rparr>"
  have h: "trim (query ?st) \<noteq> []" by code_simp
  have ps: "processes ?st = [proc_a, proc_b]" by (simp add: sample_app_def)
  have q: "query ?st = ''which?''" by simp
  have r: "requests ?st = []" by (simp add: sample_app_def)
  have c: "buildContext [proc_a, proc_b] =
    ''System processes: PID: 1, Name: node, Status: running, CPU KB: 1, Memory KB: 7, PID: 2, Name: bash, Status: sleeping, CPU KB: 2, Memory KB: 7''"
    by code_simp
  have g: "list_all (\<lambda>p. newline \<notin> set (name p) \<and> newline \<notin> set (status p)) (processes ?st)"
    unfolding ps by code_simp
  note t = C6_prompt [OF h, of ReplyNone]
  from t have "requests (handleSubmit ReplyNone ?st) =
      requests ?st @ [buildContext (processes ?st) @ [newline] @ query ?st]" by blast
  then have 1: "requests (handleSubmit ReplyNone ?st) =
     [''System processes: PID: 1, Name: node, Status: running, CPU KB: 1, Memory KB: 7, PID: 2, Name: bash, Status: sleeping, CPU KB: 2, Memory KB: 7''
      @ [newline] @ ''which?'']"
    by (simp only: ps q r c append_Nil)
  from t g have 2: "newline \<notin> set (buildContext (processes ?st))" by blast
  from h 1 2 show ?thesis by (intro conjI)
qed

text \<open>
  C6 as stated fails where it says one line per process: the context of two processes
  is one line.
\<close>

theorem C6_one_line_counterexample:
  "length [proc_a, proc_b] = 2 \<and>
   length (splitLines (buildContext [proc_a, proc_b])) = 1 \<and>
   buildContext [proc_a, proc_b] =
     ''System processes: PID: 1, Name: node, Status: running, CPU KB: 1, Memory KB: 7, PID: 2, Name: bash, Status: sleeping, CPU KB: 2, Memory KB: 7''"
  by code_simp


text \<open>
  C7. Submitting a query that is empty or holds white space only posts nothing to the
  inference endpoint, appends nothing to the chat history and shows exactly one
  warning; the rest of the held state is unchanged.
\<close>

theorem C7_empty_query:
  assumes "list_all isWhiteSpace (query st)"
  shows "handleSubmit reply st = st\<lparr>toasts := toasts st @ [''Please enter a query'']\<rparr> \<and>
         requests (handleSubmit reply st) = requests st \<and>
         chatHistory (handleSubmit reply st) = chatHistory st \<and>
         length (toasts (handleSubmit reply st)) = length (toasts st) + 1"
proof -
  have "trim (query st) = []" using assms by (simp only: trim_empty_iff)
  then have "handleSubmit reply st = st\<lparr>toasts := toasts st @ [''Please enter a query'']\<rparr>"
    by (simp add: handleSubmit_def)
  then show ?thesis by simp
qed

text \<open>C7 run on a query of three spaces.\<close>

theorem C7_empty_query_witness:
  "list_all isWhiteSpace (query (sample_app\<lparr>query := ''   ''\<rparr>)) \<and>
   handleSubmit ReplyNone (sample_app\<lparr>query := ''   ''\<rparr>) =
     sample_app\<lparr>query := ''   '', toasts := [''Please enter a query'']\<rparr> \<and>
   requests (handleSubmit ReplyNone (sample_app\<lparr>query := ''   ''\<rparr>)) = [] \<and>
   chatHistory (handleSubmit ReplyNone (sample_app\<lparr>query := ''   ''\<rparr>)) = []"
proof -
  have h: "list_all isWhiteSpace (query (sample_app\<lparr>query := ''   ''\<rparr>))"
    by (simp add: isWhiteSpace_def)
  from C7_empty_query [OF h, of ReplyNone] h show ?thesis
    by (simp add: sample_app_def)
qed

text \<open>
  C8. For a query that is not empty after trimming: when the inference call succeeds,
  exactly one entry, the reply text, is appended to the end of the chat history and the
  input is cleared; when it fails (a status that is not a success, a body that is not
  JSON, or no response), nothing is appended, one error toast is shown and the input
  keeps the query. A success without a reply text appends the placeholder.
\<close>

theorem C8_submit_outcome:
  assumes "trim (query st) \<noteq> []"
  shows "(queryOllama reply = Inr response \<longrightarrow>
            chatHistory (handleSubmit reply st) = chatHistory st @ [response] \<and>
            query (handleSubmit reply st) = [] \<and>
            toasts (handleSubmit reply st) = toasts st) \<and>
         (queryOllama reply = Inl err \<longrightarrow>
            chatHistory (handleSubmit reply st) = chatHistory st \<and>
            toasts (handleSubmit reply st) = toasts st @ [''Failed to get a response''] \<and>
            query (handleSubmit reply st) = query st) \<and>
         queryOllama (ReplyOk body) =
           Inr (case body of Some r \<Rightarrow> if r \<noteq> [] then r else ''No response from Ollama.''
                | None \<Rightarrow> ''No response from Ollama.'') \<and>
         isl (queryOllama (ReplyStatus code text)) \<and> isl (queryOllama ReplyNone) \<and>
         isl (queryOllama ReplyNotJson)"
  using assms
  by (auto simp: handleSubmit_def addToChatHistory_def queryOllama_def Let_def
      split: option.splits)

text \<open>C8 run on the query \<open>which?\<close>, once with a reply and once with status 500.\<close>

theorem C8_submit_outcome_witness:
  "trim (query (sample_app\<lparr>query := ''which?''\<rparr>)) \<noteq> [] \<and>
   chatHistory (handleSubmit (ReplyOk (Some ''chrome'')) (sample_app\<lparr>query := ''which?''\<rparr>)) =
     [''chrome''] \<and>
   query (handleSubmit (ReplyOk (Some ''chrome'')) (sample_app\<lparr>query := ''which?''\<rparr>)) = [] \<and>
   chatHistory (handleSubmit (ReplyStatus 500 ''busy'') (sample_app\<lparr>query := ''which?''\<rparr>)) = [] \<and>
   toasts (handleSubmit (ReplyStatus 500 ''busy'') (sample_app\<lparr>query := ''which?''\<rparr>)) =
     [''Failed to get a response''] \<and>
   query (handleSubmit (ReplyStatus 500 ''busy'') (sample_app\<lparr>query := ''which?''\<rparr>)) = ''which?''"
proof -
  let ?st = "sample_app\<lparr>query := ''which?''\<rparr>"
  have h: "trim (query ?st) \<noteq> []" by code_simp
  have ok: "queryOllama (ReplyOk (Some ''chrome'')) = Inr ''chrome''"
    by (simp add: queryOllama_def)
  have bad: "queryOllama (ReplyStatus 500 ''busy'') = Inl (''Error '' @ Number_toString 500 @ '': busy'')"
    by (simp add: queryOllama_def)
  from C8_submit_outcome [OF h, of "ReplyOk (Some ''chrome'')" "''chrome''"] ok
  have 1: "chatHistory (handleSubmit (ReplyOk (Some ''chrome'')) ?st) = chatHistory ?st @ [''chrome'']"
    and 2: "query (handleSubmit (ReplyOk (Some ''chrome'')) ?st) = []" by blast+
  from C8_submit_outcome [OF h, of "ReplyStatus 500 ''busy''" _ "''Error '' @ Number_toString 500 @ '': busy''"] bad
  have 3: "chatHistory (handleSubmit (ReplyStatus 500 ''busy'') ?st) = chatHistory ?st"
    and 4: "toasts (handleSubmit (ReplyStatus 500 ''busy'') ?st) = toasts ?st @ [''Failed to get a response'']"
    and 5: "query (handleSubmit (ReplyStatus 500 ''busy'') ?st) = query ?st" by blast+
  show ?thesis using h 1 2 3 4 5 by (simp add: sample_app_def)
qed

text \<open>
  C4. Whenever a fetch of the process list fails, by an exception or by a status that is
  not a success, the fallback yields exactly 100 records in descending order of
  memoryKb; the fallback resource summary has totalMemory 32000 and totalDisk 1000000,
  whatever the random draws.
\<close>

theorem C4_fallback:
  "length (fetchProcesses FetchFailed rnd now fmt) = 100 \<and>
   descending_by Key_memoryKb (fetchProcesses FetchFailed rnd now fmt) \<and>
   length (fetchProcesses FetchedNotOk rnd now fmt) = 100 \<and>
   descending_by Key_memoryKb (fetchProcesses FetchedNotOk rnd now fmt) \<and>
   totalMemory (fetchSystemResources FetchFailed rnd') = 32000 \<and>
   totalDisk (fetchSystemResources FetchFailed rnd') = 1000000 \<and>
   totalMemory (fetchSystemResources FetchedNotOk rnd') = 32000 \<and>
   totalDisk (fetchSystemResources FetchedNotOk rnd') = 1000000"
  by (simp add: fetchProcesses_def fetchSystemResources_def generateMockSystemResources_def
      generateMockProcesses_length generateMockProcesses_descending)





end
